theory Spec2Isabelle
  imports Main "HOL-Library.Multiset" "HOL-Library.Char_ord" "HOL-Library.List_Lexorder"
begin

chapter \<open>The program\<close>

section \<open>Strings of the runtime\<close>

text \<open>
  A JavaScript string is modelled as a \<^typ>\<open>string\<close>. \<open>split_on c s\<close> is
  \<^verbatim>\<open>s.split(c)\<close> for a one-character separator: it always returns at least one
  piece, and \<^verbatim>\<open>"".split("/")\<close> is \<^verbatim>\<open>[""]\<close>. \<open>join sep xs\<close> is
  \<^verbatim>\<open>xs.join(sep)\<close>.
\<close>

fun split_on :: "char \<Rightarrow> string \<Rightarrow> string list" where
  "split_on c [] = [[]]"
| "split_on c (x # xs) =
     (if x = c then [] # split_on c xs
      else (case split_on c xs of
              [] \<Rightarrow> [[x]]
            | w # ws \<Rightarrow> (x # w) # ws))"

fun join :: "string \<Rightarrow> string list \<Rightarrow> string" where
  "join sep [] = []"
| "join sep [x] = x"
| "join sep (x # y # ys) = x @ sep @ join sep (y # ys)"

text \<open>
  What the JavaScript runtime supplies and the repository does not define: the
  collation \<^verbatim>\<open>String.prototype.localeCompare\<close>, which depends on the locale, and the
  case conversions of Unicode. They are parameters of the model: what is proved holds
  for every runtime, the order of a listing for every runtime whose collation is
  consistent.
\<close>

record runtime =
  localeCompare :: "string \<Rightarrow> string \<Rightarrow> int"
  lower_beyond_ascii :: "string \<Rightarrow> string"
  upper_beyond_ascii :: "string \<Rightarrow> string"

text \<open>
  \<^verbatim>\<open>toLowerCase\<close> and \<^verbatim>\<open>toUpperCase\<close>. On a string of ASCII characters they map the
  letters A to Z and a to z onto each other and leave every other character as it is;
  a string with a character beyond ASCII is converted by the runtime's tables.
  \<open>includes_str s t\<close> is \<^verbatim>\<open>s.includes(t)\<close>: \<open>t\<close> occurs in \<open>s\<close> as a contiguous piece.
\<close>

definition is_ascii :: "char \<Rightarrow> bool" where
  "is_ascii c = (\<not> digit7 c)"

definition lower_char :: "char \<Rightarrow> char" where
  "lower_char c =
     (case map_of (zip ''ABCDEFGHIJKLMNOPQRSTUVWXYZ'' ''abcdefghijklmnopqrstuvwxyz'') c of
        Some d \<Rightarrow> d
      | None \<Rightarrow> c)"


definition toLowerCase :: "runtime \<Rightarrow> string \<Rightarrow> string" where
  "toLowerCase rt s = (if list_all is_ascii s then map lower_char s else lower_beyond_ascii rt s)"


fun starts_with :: "string \<Rightarrow> string \<Rightarrow> bool" where
  "starts_with s [] = True"
| "starts_with [] (y # ys) = False"
| "starts_with (x # xs) (y # ys) = (x = y \<and> starts_with xs ys)"

fun includes_str :: "string \<Rightarrow> string \<Rightarrow> bool" where
  "includes_str [] t = (t = [])"
| "includes_str (x # xs) t = (starts_with (x # xs) t \<or> includes_str xs t)"

text \<open>\<^verbatim>\<open>p.split("/").filter(Boolean)\<close>: the non-empty segments of a path.\<close>

definition path_parts :: "string \<Rightarrow> string list" where
  "path_parts p = filter (\<lambda>seg. seg \<noteq> []) (split_on CHR ''/'' p)"

section \<open>Files and the file tree (TabNavigation.tsx, FilesExplorer)\<close>

text \<open>
  \<^verbatim>\<open>ServerFile\<close> as the interface declares it; \<open>ftype\<close> and \<open>fsize\<close> are its fields
  \<^verbatim>\<open>type\<close> and \<^verbatim>\<open>size\<close>. \<open>fsize\<close> is \<^verbatim>\<open>size?: number | null\<close>: \<open>None\<close> stands for
  both \<^verbatim>\<open>null\<close> and a missing field (the code only ever tests its truthiness), and a
  present size is a byte count.
\<close>

datatype file_type = Directory | File

record ServerFile =
  path :: string
  name :: string
  ftype :: file_type
  fsize :: "int option"
  modified :: string

text \<open>
  A tree node is the object \<^verbatim>\<open>{name, path, type, size, modified, children}\<close>: the five
  fields of a \<^verbatim>\<open>ServerFile\<close> and the child object. An object used as a dictionary is
  the list of its own properties in the order they were added.
\<close>

datatype node = Node (entry: ServerFile) (children: "(string \<times> node) list")

type_synonym tree = "(string \<times> node) list"

datatype js_error = TypeError

text \<open>
  The tree objects are created by \<^verbatim>\<open>{}\<close>, so a property read \<^verbatim>\<open>current[part]\<close> that
  finds no own property goes on to \<^verbatim>\<open>Object.prototype\<close>. The names below are the
  properties every such object inherits; each of them reads as a truthy value (a
  function, or the prototype object for \<^verbatim>\<open>__proto__\<close>) that has no \<^verbatim>\<open>children\<close>.
\<close>

definition object_prototype_keys :: "string list" where
  "object_prototype_keys =
     [''constructor'', ''hasOwnProperty'', ''isPrototypeOf'', ''propertyIsEnumerable'',
      ''toLocaleString'', ''toString'', ''valueOf'', ''__proto__'',
      ''__defineGetter__'', ''__defineSetter__'', ''__lookupGetter__'', ''__lookupSetter__'']"

datatype 'a property = Own 'a | Inherited | Absent

definition get_prop :: "tree \<Rightarrow> string \<Rightarrow> node property" where
  "get_prop obj k =
     (case map_of obj k of
        Some n \<Rightarrow> Own n
      | None \<Rightarrow> if k \<in> set object_prototype_keys then Inherited else Absent)"

text \<open>\<^verbatim>\<open>obj[k] = v\<close>: an own property keeps its place, a new one goes last.\<close>

fun set_prop :: "tree \<Rightarrow> string \<Rightarrow> node \<Rightarrow> tree" where
  "set_prop [] k v = [(k, v)]"
| "set_prop ((k', v') # kvs) k v =
     (if k' = k then (k, v) # kvs else (k', v') # set_prop kvs k v)"

text \<open>
  The inner \<^verbatim>\<open>parts.forEach((part, index) => ...)\<close> of \<^verbatim>\<open>buildFileTree\<close> for one listing
  entry. \<open>seen\<close> holds the segments already walked, so \<open>seen @ [part]\<close> is
  \<^verbatim>\<open>parts.slice(0, index + 1)\<close>, and the segment is the last one exactly when no
  segment is left. \<open>cur\<close> is the object \<^verbatim>\<open>current\<close> points to; the walk returns it
  with the nodes added below it. When \<^verbatim>\<open>current[part]\<close> is an inherited property,
  nothing is created and \<^verbatim>\<open>current\<close> becomes \<^verbatim>\<open>undefined\<close>: a further segment then
  reads a property of \<^verbatim>\<open>undefined\<close>, which throws.
\<close>

fun walk :: "ServerFile \<Rightarrow> string list \<Rightarrow> string list \<Rightarrow> tree \<Rightarrow> js_error + tree" where
  "walk file seen [] cur = Inr cur"
| "walk file seen (part # rest) cur =
     (case get_prop cur part of
        Inherited \<Rightarrow> (if rest = [] then Inr cur else Inl TypeError)
      | Own n \<Rightarrow>
          (case walk file (seen @ [part]) rest (children n) of
             Inl e \<Rightarrow> Inl e
           | Inr ch \<Rightarrow> Inr (set_prop cur part (Node (entry n) ch)))
      | Absent \<Rightarrow>
          (case walk file (seen @ [part]) rest [] of
             Inl e \<Rightarrow> Inl e
           | Inr ch \<Rightarrow>
               Inr (set_prop cur part
                 (Node \<lparr>path = join ''/'' (seen @ [part]),
                        name = part,
                        ftype = (if rest = [] then ftype file else Directory),
                        fsize = (if rest = [] then fsize file else None),
                        modified = modified file\<rparr> ch))))"

text \<open>\<^verbatim>\<open>files.forEach\<close>: the entries are walked in listing order, from the tree so far.\<close>

fun build_from :: "tree \<Rightarrow> ServerFile list \<Rightarrow> js_error + tree" where
  "build_from t [] = Inr t"
| "build_from t (f # fs) =
     (case walk f [] (path_parts (path f)) t of
        Inl e \<Rightarrow> Inl e
      | Inr t' \<Rightarrow> build_from t' fs)"

definition buildFileTree :: "ServerFile list \<Rightarrow> js_error + tree" where
  "buildFileTree files = build_from [] files"

text \<open>The node a chain of own keys leads to, if there is one.\<close>

fun resolve :: "tree \<Rightarrow> string list \<Rightarrow> node option" where
  "resolve t [] = None"
| "resolve t [k] = map_of t k"
| "resolve t (k # k' # ks) =
     (case map_of t k of
        None \<Rightarrow> None
      | Some n \<Rightarrow> resolve (children n) (k' # ks))"

text \<open>
  \<^verbatim>\<open>Object.values(obj)\<close> lists the own properties whose key is an array index (the
  decimal numeral, without leading zeros, of a number below \<open>2^32 - 1\<close>) first, in
  ascending numeric order, and then the others in the order they were added.
\<close>

definition is_digit :: "char \<Rightarrow> bool" where
  "is_digit c = (c \<in> set ''0123456789'')"

definition digit_val :: "char \<Rightarrow> int" where
  "digit_val c = (case map_of (zip ''0123456789'' [0, 1, 2, 3, 4, 5, 6, 7, 8, 9]) c of
                    Some d \<Rightarrow> d
                  | None \<Rightarrow> 0)"

definition decimal :: "string \<Rightarrow> int" where
  "decimal s = foldl (\<lambda>n c. 10 * n + digit_val c) 0 s"

definition is_array_index :: "string \<Rightarrow> bool" where
  "is_array_index s =
     (s \<noteq> [] \<and> list_all is_digit s \<and> (length s = 1 \<or> hd s \<noteq> CHR ''0'')
      \<and> decimal s < 4294967295)"

definition own_properties :: "tree \<Rightarrow> tree" where
  "own_properties obj =
     sort_key (\<lambda>kv. decimal (fst kv)) (filter (\<lambda>kv. is_array_index (fst kv)) obj)
     @ filter (\<lambda>kv. \<not> is_array_index (fst kv)) obj"

definition object_values :: "tree \<Rightarrow> ServerFile list" where
  "object_values obj = map (\<lambda>kv. entry (snd kv)) (own_properties obj)"

text \<open>
  \<^verbatim>\<open>getCurrentFiles\<close>: the entries of the directory at \<^verbatim>\<open>currentPath\<close>, read as
  \<^verbatim>\<open>ServerFile[]\<close>. A segment that is not a property gives the empty listing; a
  segment that is an inherited property leaves \<^verbatim>\<open>current\<close> undefined, and the next
  read of it (by the loop or by \<^verbatim>\<open>Object.values\<close>) throws.
\<close>

fun descend :: "tree \<Rightarrow> string list \<Rightarrow> js_error + ServerFile list" where
  "descend cur [] = Inr (object_values cur)"
| "descend cur (part # rest) =
     (case get_prop cur part of
        Own n \<Rightarrow> descend (children n) rest
      | Inherited \<Rightarrow> Inl TypeError
      | Absent \<Rightarrow> Inr [])"

definition getCurrentFiles :: "tree \<Rightarrow> string \<Rightarrow> js_error + ServerFile list" where
  "getCurrentFiles fileTree currentPath =
     (if currentPath = [] then Inr (object_values fileTree)
      else descend fileTree (path_parts currentPath))"

text \<open>
  The child object of the directory a path names: the tree itself for the root, and
  the children of the node the path's segments lead to otherwise.
\<close>

definition directory_at :: "tree \<Rightarrow> string \<Rightarrow> tree option" where
  "directory_at fileTree p =
     (if path_parts p = [] then Some fileTree
      else map_option children (resolve fileTree (path_parts p)))"

text \<open>
  \<^verbatim>\<open>Array.prototype.sort\<close> with a comparator is stable; for a consistent comparator
  its result is the one a stable insertion sort gives. The comparator of the listing
  puts a directory before a file and compares two entries of one kind by
  \<^verbatim>\<open>a.name.localeCompare(b.name)\<close>, the collation of the runtime.
\<close>

fun insert_by :: "('a \<Rightarrow> 'a \<Rightarrow> int) \<Rightarrow> 'a \<Rightarrow> 'a list \<Rightarrow> 'a list" where
  "insert_by cmp x [] = [x]"
| "insert_by cmp x (y # ys) = (if cmp x y \<le> 0 then x # y # ys else y # insert_by cmp x ys)"

definition array_sort :: "('a \<Rightarrow> 'a \<Rightarrow> int) \<Rightarrow> 'a list \<Rightarrow> 'a list" where
  "array_sort cmp xs = foldr (insert_by cmp) xs []"

definition compare_entries :: "runtime \<Rightarrow> ServerFile \<Rightarrow> ServerFile \<Rightarrow> int" where
  "compare_entries rt a b =
     (if ftype a \<noteq> ftype b then (if ftype a = Directory then - 1 else 1)
      else localeCompare rt (name a) (name b))"

definition name_matches :: "runtime \<Rightarrow> string \<Rightarrow> ServerFile \<Rightarrow> bool" where
  "name_matches rt flt file =
     (if flt = [] then True
      else includes_str (toLowerCase rt (name file)) (toLowerCase rt flt))"

definition currentFiles ::
  "runtime \<Rightarrow> tree \<Rightarrow> string \<Rightarrow> string \<Rightarrow> js_error + ServerFile list" where
  "currentFiles rt fileTree currentPath flt =
     (case getCurrentFiles fileTree currentPath of
        Inl e \<Rightarrow> Inl e
      | Inr fs \<Rightarrow> Inr (array_sort (compare_entries rt) (filter (name_matches rt flt) fs)))"

text \<open>
  What makes a comparator consistent, as far as the sort needs it: any two names are
  comparable, and "not after" is transitive.
\<close>

definition consistent_comparator :: "('a \<Rightarrow> 'a \<Rightarrow> int) \<Rightarrow> bool" where
  "consistent_comparator cmp =
     ((\<forall>a b. cmp a b \<le> 0 \<or> cmp b a \<le> 0)
      \<and> (\<forall>a b c. cmp a b \<le> 0 \<and> cmp b c \<le> 0 \<longrightarrow> cmp a c \<le> 0))"

text \<open>
  A runtime to evaluate examples with. Its collation is the one an English locale
  gives names that differ at an ASCII letter: alphabetical whatever the case, and between two names
  that differ in case only, the one with the lower-case letter at the first
  difference comes first (\<^verbatim>\<open>"a".localeCompare("B")\<close> and \<^verbatim>\<open>"a".localeCompare("A")\<close>
  are negative). The examples hold ASCII strings only, so its tables for the
  characters beyond ASCII, which change nothing, are never consulted.
\<close>

definition alphabetical_compare :: "string \<Rightarrow> string \<Rightarrow> int" where
  "alphabetical_compare a b =
     (if map lower_char a < map lower_char b then - 1
      else if map lower_char b < map lower_char a then 1
      else if a = b then 0
      else if b < a then - 1
      else 1)"

definition sample_runtime :: runtime where
  "sample_runtime =
     \<lparr>localeCompare = alphabetical_compare,
      lower_beyond_ascii = (\<lambda>s. s),
      upper_beyond_ascii = (\<lambda>s. s)\<rparr>"

text \<open>
  The order the spec names, to compare the listing with: names ascending with case
  taken into account, that is, in the order of their character codes.
\<close>

definition spec_ascending_names :: "string list \<Rightarrow> bool" where
  "spec_ascending_names names = sorted names"

subsection \<open>Which files open in the editor\<close>







subsection \<open>The explorer's state and its handlers\<close>

datatype clip_action = Copy | Cut

record clipboard_slot =
  action :: "clip_action option"
  clip_path :: "string option"

datatype backend_call =
    ReadFile string
  | WriteFile string string
  | CopyFile string string
  | MoveFile string string
  | DownloadFile string

text \<open>
  The optional handlers of \<^verbatim>\<open>FilesExplorerProps\<close>: whether the parent passed each one.
  \<^verbatim>\<open>page.tsx\<close> passes all of them.
\<close>

record explorer_props =
  has_writeFile :: bool
  has_copyFile :: bool
  has_moveFile :: bool
  has_downloadFile :: bool

definition page_props :: explorer_props where
  "page_props = \<lparr>has_writeFile = True, has_copyFile = True, has_moveFile = True,
                  has_downloadFile = True\<rparr>"

record explorer =
  name_filter :: string
  currentPath :: string
  editingFile :: "string option"
  fileContent :: string
  editorReadOnly :: bool
  clipboard :: clipboard_slot
  menu_visible :: bool

definition closeContextMenu :: "explorer \<Rightarrow> explorer" where
  "closeContextMenu s = s\<lparr>menu_visible := False\<rparr>"

definition handleCopy :: "explorer \<Rightarrow> ServerFile \<Rightarrow> explorer" where
  "handleCopy s target =
     closeContextMenu (s\<lparr>clipboard := \<lparr>action = Some Copy, clip_path = Some (path target)\<rparr>\<rparr>)"

definition handleCut :: "explorer \<Rightarrow> ServerFile \<Rightarrow> explorer" where
  "handleCut s target =
     closeContextMenu (s\<lparr>clipboard := \<lparr>action = Some Cut, clip_path = Some (path target)\<rparr>\<rparr>)"

text \<open>\<^verbatim>\<open>clipboard.path.split("/").pop() || ""\<close>.\<close>

definition basename :: "string \<Rightarrow> string" where
  "basename p = last (split_on CHR ''/'' p)"

definition paste_target :: "string \<Rightarrow> string \<Rightarrow> string" where
  "paste_target destinationPath src =
     (if destinationPath \<noteq> [] then destinationPath @ ''/'' @ basename src else basename src)"

text \<open>
  \<^verbatim>\<open>handlePaste(destinationPath)\<close>. The result is the new state and the backend calls
  issued. \<open>resolves\<close> says whether the awaited backend call succeeds: when it rejects,
  the handler stops there, so the clipboard is not cleared and the menu is not closed.
\<close>

definition handlePaste ::
  "explorer_props \<Rightarrow> explorer \<Rightarrow> string \<Rightarrow> bool \<Rightarrow> explorer \<times> backend_call list" where
  "handlePaste props s destinationPath resolves =
     (case (clip_path (clipboard s), action (clipboard s)) of
        (Some src, Some act) \<Rightarrow>
          if src = [] then (s, [])
          else (case act of
                  Copy \<Rightarrow>
                    if has_copyFile props
                    then (if resolves
                          then (closeContextMenu s, [CopyFile src (paste_target destinationPath src)])
                          else (s, [CopyFile src (paste_target destinationPath src)]))
                    else (closeContextMenu s, [])
                | Cut \<Rightarrow>
                    if has_moveFile props
                    then (if resolves
                          then (closeContextMenu (s\<lparr>clipboard := \<lparr>action = None, clip_path = None\<rparr>\<rparr>),
                                [MoveFile src (paste_target destinationPath src)])
                          else (s, [MoveFile src (paste_target destinationPath src)]))
                    else (closeContextMenu (s\<lparr>clipboard := \<lparr>action = None, clip_path = None\<rparr>\<rparr>), []))
      | _ \<Rightarrow> (s, []))"







section \<open>The server view (page.tsx, ServerDetail)\<close>

subsection \<open>Messages\<close>

text \<open>
  The types of \<^verbatim>\<open>utils/types\<close>. The fields \<^verbatim>\<open>type\<close>, \<^verbatim>\<open>timestamp\<close>, \<^verbatim>\<open>text\<close> and
  \<^verbatim>\<open>data\<close> of a \<^verbatim>\<open>ConsoleMessage\<close> carry the prefix \<open>msg_\<close>; an optional field is
  an option.
\<close>

record ConsoleMessage =
  msg_type :: string
  msg_timestamp :: "string option"
  msg_text :: "string option"
  msg_data :: "string option"

record server_metrics =
  cpu_usage :: string
  memory_usage :: string
  player_count :: string
  uptime :: string

record server_ip =
  private_ip :: string
  public_ip :: string

record ServerDetails =
  server_name :: string
  server_status :: string
  server_type :: string
  server_version :: string
  metrics :: server_metrics
  port :: int
  maxPlayers :: int
  players :: "string list"
  ip :: server_ip

datatype change_event = Added | Modified | Deleted

record FileChangeEvent =
  event :: change_event
  change_path :: string

datatype SocketMessage =
    File_init "ServerFile list"
  | File_update "ServerFile list" "FileChangeEvent list"
  | Error string
  | Need_eula
  | Ping
  | Console ConsoleMessage
  | Status string
  | Player_update "string list"
  | Info ServerDetails

datatype action_frame = Start | Stop | Restart | Pong | Command string

subsection \<open>State\<close>

text \<open>
  The state of the view: its \<^verbatim>\<open>useState\<close> values, its two refs, and what it has done
  to the outside. \<open>sockets\<close> holds the ready state of every WebSocket the effect has
  created, the oldest first, so a socket is known by its position. \<open>socket\<close> says that
  the \<^verbatim>\<open>socket\<close> state is not \<^verbatim>\<open>null\<close>, and \<open>socket_held\<close> is then the socket it holds.
  \<open>effect_socket\<close> is the socket of the effect run whose cleanup is registered, if one
  is. \<open>sent\<close> are the frames sent, \<open>closes\<close> the close codes issued, and \<open>timers\<close> the
  timeouts that are pending (identifier and delay in milliseconds).
\<close>

datatype ready_state = CONNECTING | OPEN | CLOSING | CLOSED

record page_state =
  serverDetails :: "ServerDetails option"
  loading :: bool
  page_error :: string
  actionInProgress :: string
  consoleOutput :: "ConsoleMessage list"
  showEulaModal :: bool
  socket :: bool
  socket_held :: nat
  files :: "ServerFile list"
  reconnectTimeoutRef :: "nat option"
  isReconnectingRef :: bool
  sockets :: "ready_state list"
  effect_socket :: "nat option"
  sent :: "action_frame list"
  closes :: "nat list"
  timers :: "(nat \<times> nat) list"
  next_timer :: nat

definition initial_state :: page_state where
  "initial_state =
     \<lparr>serverDetails = None, loading = True, page_error = [], actionInProgress = [],
      consoleOutput = [], showEulaModal = False, socket = False, socket_held = 0,
      files = [], reconnectTimeoutRef = None, isReconnectingRef = False, sockets = [],
      effect_socket = None, sent = [], closes = [], timers = [], next_timer = 1\<rparr>"

subsection \<open>The connection effect\<close>

text \<open>
  The effect body. While a socket is held or a reconnect is pending it returns at once
  and registers no cleanup; otherwise it creates a WebSocket, which starts connecting,
  and returns the cleanup for it.
\<close>

definition connect :: "page_state \<Rightarrow> page_state" where
  "connect s =
     (if socket s \<or> isReconnectingRef s then s\<lparr>effect_socket := None\<rparr>
      else s\<lparr>sockets := sockets s @ [CONNECTING], effect_socket := Some (length (sockets s))\<rparr>)"

text \<open>\<^verbatim>\<open>ws.onopen\<close> of the socket \<open>i\<close>.\<close>

definition onopen :: "page_state \<Rightarrow> nat \<Rightarrow> page_state" where
  "onopen s i = s\<lparr>socket := True, socket_held := i, isReconnectingRef := False\<rparr>"

text \<open>
  \<^verbatim>\<open>ws.onmessage\<close> on a decoded frame, the same for every socket. A frame that does
  not parse, or whose type is none of the cases, changes nothing (\<open>receive\<close>).
\<close>

fun onmessage :: "page_state \<Rightarrow> SocketMessage \<Rightarrow> page_state" where
  "onmessage s (Console m) = s\<lparr>consoleOutput := consoleOutput s @ [m]\<rparr>"
| "onmessage s (Info d) = s\<lparr>serverDetails := Some d, loading := False\<rparr>"
| "onmessage s Ping = s\<lparr>sent := sent s @ [Pong]\<rparr>"
| "onmessage s Need_eula = s\<lparr>showEulaModal := True\<rparr>"
| "onmessage s (Error e) = s\<lparr>page_error := (if e \<noteq> [] then e else ''An error occurred'')\<rparr>"
| "onmessage s (Status v) =
     (let s1 = s\<lparr>serverDetails := map_option (\<lambda>d. d\<lparr>server_status := v\<rparr>) (serverDetails s)\<rparr>
      in if v = ''online'' \<or> v = ''offline'' then s1\<lparr>actionInProgress := []\<rparr> else s1)"
| "onmessage s (Player_update ps) =
     s\<lparr>serverDetails := map_option (\<lambda>d. d\<lparr>players := ps\<rparr>) (serverDetails s)\<rparr>"
| "onmessage s (File_init fs) = s\<lparr>files := fs\<rparr>"
| "onmessage s (File_update fs changes) = s\<lparr>files := fs\<rparr>"

definition receive :: "page_state \<Rightarrow> SocketMessage option \<Rightarrow> page_state" where
  "receive s frame = (case frame of None \<Rightarrow> s | Some m \<Rightarrow> onmessage s m)"

text \<open>
  \<^verbatim>\<open>ws.onclose\<close> with the close code. \<^verbatim>\<open>setTimeout\<close> returns a fresh identifier and
  the timeout is pending from then on.
\<close>

definition onclose :: "page_state \<Rightarrow> nat \<Rightarrow> page_state" where
  "onclose s code =
     (let s1 = s\<lparr>socket := False\<rparr>
      in if code \<noteq> 1000 \<and> \<not> isReconnectingRef s1
         then s1\<lparr>isReconnectingRef := True,
                 reconnectTimeoutRef := Some (next_timer s1),
                 timers := timers s1 @ [(next_timer s1, 5000)],
                 next_timer := Suc (next_timer s1)\<rparr>
         else s1)"

text \<open>The timeout's callback, run when the pending timeout \<open>t\<close> expires.\<close>

definition clearTimeout :: "nat \<Rightarrow> (nat \<times> nat) list \<Rightarrow> (nat \<times> nat) list" where
  "clearTimeout t ts = filter (\<lambda>p. fst p \<noteq> t) ts"

definition timeout_fires :: "page_state \<Rightarrow> nat \<Rightarrow> page_state" where
  "timeout_fires s t =
     (if t \<in> set (map fst (timers s))
      then s\<lparr>timers := clearTimeout t (timers s), isReconnectingRef := False, socket := False\<rparr>
      else s)"

text \<open>
  The cleanup the effect returns for its socket \<open>i\<close>: it clears the timeout the ref
  names and closes the socket with code 1000 if the socket is open. \<open>run_cleanup\<close> runs
  the registered cleanup, if there is one.
\<close>

definition cleanup :: "page_state \<Rightarrow> nat \<Rightarrow> page_state" where
  "cleanup s i =
     (let s1 = (case reconnectTimeoutRef s of
                  Some t \<Rightarrow> if t \<noteq> 0 then s\<lparr>timers := clearTimeout t (timers s)\<rparr> else s
                | None \<Rightarrow> s)
      in if i < length (sockets s1) \<and> sockets s1 ! i = OPEN
         then s1\<lparr>sockets := (sockets s1)[i := CLOSING], closes := closes s1 @ [1000]\<rparr>
         else s1)"

definition run_cleanup :: "page_state \<Rightarrow> page_state" where
  "run_cleanup s =
     (case effect_socket s of
        None \<Rightarrow> s
      | Some i \<Rightarrow> (cleanup s i)\<lparr>effect_socket := None\<rparr>)"

subsection \<open>Lifecycle actions\<close>

text \<open>
  \<^verbatim>\<open>startServer\<close>, \<^verbatim>\<open>stopServer\<close> and \<^verbatim>\<open>restartServer\<close> differ in the flag value, the
  frame and the error text. \<open>throws\<close> says whether \<^verbatim>\<open>socket.send\<close> throws.
\<close>

definition lifecycle_action ::
  "string \<Rightarrow> action_frame \<Rightarrow> string \<Rightarrow> page_state \<Rightarrow> bool \<Rightarrow> page_state" where
  "lifecycle_action flag frame failure s throws =
     (if actionInProgress s \<noteq> [] \<or> \<not> socket s then s
      else if throws then s\<lparr>page_error := failure, actionInProgress := []\<rparr>
      else s\<lparr>actionInProgress := flag, sent := sent s @ [frame]\<rparr>)"

definition startServer :: "page_state \<Rightarrow> bool \<Rightarrow> page_state" where
  "startServer = lifecycle_action ''starting'' Start ''Failed to start server''"

definition stopServer :: "page_state \<Rightarrow> bool \<Rightarrow> page_state" where
  "stopServer = lifecycle_action ''stopping'' Stop ''Failed to stop server''"

definition restartServer :: "page_state \<Rightarrow> bool \<Rightarrow> page_state" where
  "restartServer = lifecycle_action ''restarting'' Restart ''Failed to restart server''"

text \<open>
  \<^verbatim>\<open>acceptEula\<close> in its two halves: up to the awaited request, and after it (\<open>ok\<close>
  says whether the request succeeded).
\<close>

definition acceptEula_begin :: "page_state \<Rightarrow> page_state" where
  "acceptEula_begin s = s\<lparr>actionInProgress := ''accepting_eula''\<rparr>"

definition acceptEula_end :: "page_state \<Rightarrow> bool \<Rightarrow> page_state" where
  "acceptEula_end s ok =
     (if ok then s\<lparr>showEulaModal := False, actionInProgress := []\<rparr>
      else s\<lparr>page_error := ''Failed to accept EULA'', actionInProgress := []\<rparr>)"

definition sendWebSocketCommand :: "page_state \<Rightarrow> string \<Rightarrow> page_state" where
  "sendWebSocketCommand s cmd =
     (if socket s \<and> socket_held s < length (sockets s) \<and> sockets s ! socket_held s = OPEN
      then s\<lparr>sent := sent s @ [Command cmd]\<rparr>
      else s)"

subsection \<open>Runs of the view\<close>

text \<open>
  What can happen to the view, one event at a time. \<open>Mounted\<close> is a run of the effect:
  React first runs the cleanup the previous run registered, if any, and then the
  effect body. \<open>Unmounted\<close> runs the registered cleanup. \<open>Opened i\<close> and
  \<open>Closed_with i code\<close> are the open and the close event of the socket \<open>i\<close>, handled
  by the handlers the effect attached when it created that socket: the handlers test
  nothing about the socket, stay attached after the cleanup, and share the refs with
  the handlers of every other socket. Events, frames, timeouts and the user's actions
  may come at any time and in any order.
\<close>

datatype page_event =
    Mounted
  | Opened nat
  | Received "SocketMessage option"
  | Closed_with nat nat
  | Timeout nat
  | Unmounted
  | Start_clicked bool
  | Stop_clicked bool
  | Restart_clicked bool
  | Eula_accepted bool
  | Command_sent string

fun step :: "page_state \<Rightarrow> page_event \<Rightarrow> page_state" where
  "step s Mounted = connect (run_cleanup s)"
| "step s (Opened i) =
     (if i < length (sockets s)
      then onopen (s\<lparr>sockets := (sockets s)[i := OPEN]\<rparr>) i
      else s)"
| "step s (Received frame) = receive s frame"
| "step s (Closed_with i code) =
     (if i < length (sockets s)
      then onclose (s\<lparr>sockets := (sockets s)[i := CLOSED]\<rparr>) code
      else s)"
| "step s (Timeout t) = timeout_fires s t"
| "step s Unmounted = run_cleanup s"
| "step s (Start_clicked throws) = startServer s throws"
| "step s (Stop_clicked throws) = stopServer s throws"
| "step s (Restart_clicked throws) = restartServer s throws"
| "step s (Eula_accepted ok) = acceptEula_end (acceptEula_begin s) ok"
| "step s (Command_sent cmd) = sendWebSocketCommand s cmd"

definition run :: "page_event list \<Rightarrow> page_state" where
  "run evs = foldl step initial_state evs"



subsection \<open>The path set the spec describes\<close>

text \<open>
  The path set as the spec words it, to compare the view's listing with: start from
  the paths of the \<^verbatim>\<open>file_init\<close> listing and apply every change of every
  \<^verbatim>\<open>file_update\<close> in order; an added or modified path is put in, a deleted path is
  taken out together with everything below it.
\<close>

definition spec_apply_change :: "string set \<Rightarrow> FileChangeEvent \<Rightarrow> string set" where
  "spec_apply_change S c =
     (case event c of
        Deleted \<Rightarrow> {p \<in> S. p \<noteq> change_path c \<and> \<not> starts_with p (change_path c @ ''/'')}
      | _ \<Rightarrow> insert (change_path c) S)"

definition spec_path_set ::
  "ServerFile list \<Rightarrow> (ServerFile list \<times> FileChangeEvent list) list \<Rightarrow> string set" where
  "spec_path_set listing updates =
     foldl (\<lambda>S u. foldl spec_apply_change S (snd u)) (set (map path listing)) updates"

definition flat_paths :: "page_state \<Rightarrow> string set" where
  "flat_paths s = set (map path (files s))"

definition file_messages ::
  "ServerFile list \<Rightarrow> (ServerFile list \<times> FileChangeEvent list) list \<Rightarrow> SocketMessage list" where
  "file_messages listing updates =
     File_init listing # map (\<lambda>u. File_update (fst u) (snd u)) updates"

section \<open>Console export (ConsoleOutput.tsx, downloadLogs)\<close>









section \<open>Upload addressing (page.tsx, uploadFile)\<close>

text \<open>
  \<^verbatim>\<open>uploadFile(targetPath, file)\<close> replaces an empty target by a fixed long constant and
  posts the file to \<^verbatim>\<open>/servers/${serverName}/files/upload/${targetPath}\<close>. The request
  is returned as a value: its path and the file it carries.
\<close>

definition root_sentinel :: string where
  "root_sentinel =
     ''current_directory_super_long_because_empty_string_is_bad_and_also_if_there_were_someone_stupid_enough_to_name_a_folder_like_this_we_need_to_handle_it_properly''"

record 'f upload_request =
  url :: string
  form_file :: 'f

definition upload_prefix :: "string \<Rightarrow> string" where
  "upload_prefix serverName = ''/servers/'' @ serverName @ ''/files/upload/''"

definition upload_target :: "string \<Rightarrow> string" where
  "upload_target targetPath = (if targetPath = [] then root_sentinel else targetPath)"

definition uploadFile :: "string \<Rightarrow> string \<Rightarrow> 'f \<Rightarrow> 'f upload_request" where
  "uploadFile serverName targetPath file =
     \<lparr>url = upload_prefix serverName @ upload_target targetPath, form_file = file\<rparr>"

chapter \<open>Properties\<close>

section \<open>Upload addressing\<close>

lemma root_sentinel_nonempty: "root_sentinel \<noteq> []"
  by (simp add: root_sentinel_def)

text \<open>
  Claim C9. An upload to the tree root (the empty path) is addressed to the reserved
  sentinel, which is not empty; so the part of the request path after
  \<^verbatim>\<open>/files/upload/\<close> is never empty, whatever the target. A non-empty target is passed
  through unchanged.
\<close>

theorem uploadFile_root_sentinel:
  "url (uploadFile srv [] f) = upload_prefix srv @ root_sentinel
   \<and> root_sentinel \<noteq> []
   \<and> (\<exists>seg. seg \<noteq> [] \<and> url (uploadFile srv t f) = upload_prefix srv @ seg)
   \<and> (t \<noteq> [] \<longrightarrow> url (uploadFile srv t f) = upload_prefix srv @ t)"
  by (simp add: uploadFile_def upload_target_def root_sentinel_nonempty)

theorem uploadFile_root_sentinel_witness:
  "url (uploadFile ''survival'' [] (0::nat)) = ''/servers/survival/files/upload/'' @ root_sentinel
   \<and> url (uploadFile ''survival'' ''plugins'' (0::nat)) = ''/servers/survival/files/upload/plugins''"
  using uploadFile_root_sentinel [of "''survival''" "0::nat" "''plugins''"]
  by (simp add: upload_prefix_def)

section \<open>The reconnect timer\<close>





















section \<open>The file listing of the view\<close>

lemma files_after_updates:
  "files (foldl onmessage s (map (\<lambda>u. File_update (fst u) (snd u)) updates)) =
     (if updates = [] then files s else fst (last updates))"
  by (induction updates arbitrary: s) auto

text \<open>
  Claim C1, as amended. After one \<^verbatim>\<open>file_init\<close> and any number of \<^verbatim>\<open>file_update\<close>
  messages the view's listing is the \<^verbatim>\<open>data\<close> listing of the last message, and its
  path set is that listing's paths: \<^verbatim>\<open>file_update\<close> replaces the listing by its
  \<^verbatim>\<open>data\<close> and does not consult its change list.
\<close>

theorem file_listing_is_last_message:
  "files (foldl onmessage s (file_messages listing updates)) =
     (if updates = [] then listing else fst (last updates))
   \<and> flat_paths (foldl onmessage s (file_messages listing updates)) =
     set (map path (if updates = [] then listing else fst (last updates)))"
  by (simp add: file_messages_def flat_paths_def files_after_updates)

theorem file_listing_is_last_message_witness:
  "flat_paths (foldl onmessage initial_state
     (file_messages
        [\<lparr>path = ''a.txt'', name = ''a.txt'', ftype = File, fsize = Some 1, modified = ''m''\<rparr>]
        [([\<lparr>path = ''b.txt'', name = ''b.txt'', ftype = File, fsize = Some 2, modified = ''n''\<rparr>],
          [\<lparr>event = Deleted, change_path = ''a.txt''\<rparr>, \<lparr>event = Added, change_path = ''c.txt''\<rparr>])]))
   = {''b.txt''}"
  using file_listing_is_last_message [of initial_state
        "[\<lparr>path = ''a.txt'', name = ''a.txt'', ftype = File, fsize = Some 1, modified = ''m''\<rparr>]"
        "[([\<lparr>path = ''b.txt'', name = ''b.txt'', ftype = File, fsize = Some 2, modified = ''n''\<rparr>],
          [\<lparr>event = Deleted, change_path = ''a.txt''\<rparr>, \<lparr>event = Added, change_path = ''c.txt''\<rparr>])]"]
  by simp

text \<open>
  The claim as stated fails: a \<^verbatim>\<open>file_update\<close> that repeats the old listing and
  announces an added path leaves the path set as it was, where the spec's path set
  gains the added path.
\<close>

theorem file_update_changes_counterexample:
  "flat_paths (foldl onmessage initial_state
     (file_messages
        [\<lparr>path = ''a.txt'', name = ''a.txt'', ftype = File, fsize = Some 1, modified = ''m''\<rparr>]
        [([\<lparr>path = ''a.txt'', name = ''a.txt'', ftype = File, fsize = Some 1, modified = ''m''\<rparr>],
          [\<lparr>event = Added, change_path = ''b.txt''\<rparr>])]))
   = {''a.txt''}
   \<and> spec_path_set
        [\<lparr>path = ''a.txt'', name = ''a.txt'', ftype = File, fsize = Some 1, modified = ''m''\<rparr>]
        [([\<lparr>path = ''a.txt'', name = ''a.txt'', ftype = File, fsize = Some 1, modified = ''m''\<rparr>],
          [\<lparr>event = Added, change_path = ''b.txt''\<rparr>])]
   = {''a.txt'', ''b.txt''}
   \<and> {''a.txt''} \<noteq> {''a.txt'', ''b.txt''}"
  by (auto simp: file_messages_def flat_paths_def spec_path_set_def spec_apply_change_def)

section \<open>Lifecycle actions\<close>









section \<open>Copy, cut and paste\<close>

lemma paste_empty_clipboard:
  "clip_path (clipboard s) = None \<or> action (clipboard s) = None \<Longrightarrow>
     handlePaste props s dir ok = (s, [])"
  by (auto simp: handlePaste_def split: option.splits)

lemma paste_after_copy:
  "path target \<noteq> [] \<Longrightarrow>
     handlePaste page_props (handleCopy s target) dir True =
       (closeContextMenu (handleCopy s target),
        [CopyFile (path target) (paste_target dir (path target))])"
  by (simp add: handlePaste_def handleCopy_def closeContextMenu_def page_props_def)

lemma paste_after_cut:
  "path target \<noteq> [] \<Longrightarrow>
     handlePaste page_props (handleCut s target) dir True =
       (closeContextMenu (handleCut s target\<lparr>clipboard := \<lparr>action = None, clip_path = None\<rparr>\<rparr>),
        [MoveFile (path target) (paste_target dir (path target))])"
  by (simp add: handlePaste_def handleCut_def closeContextMenu_def page_props_def)

lemma closeContextMenu_clipboard: "clipboard (closeContextMenu s) = clipboard s"
  by (simp add: closeContextMenu_def)

text \<open>
  Claim C7. The destination of a paste is the target directory, a slash and the last
  segment of the source path (the bare segment when the target is the root). After a
  copy, a paste whose backend call succeeds issues one remote copy and leaves the
  clipboard as it was, so the next paste issues a copy again. After a cut, it issues
  one remote move and empties the clipboard, and the next paste changes nothing and
  calls nothing. A paste with an empty clipboard changes nothing and calls nothing.
\<close>

theorem paste_copy_cut:
  "paste_target dir src = (if dir = [] then basename src else dir @ ''/'' @ basename src)
   \<and> (path target \<noteq> [] \<longrightarrow>
        snd (handlePaste page_props (handleCopy s target) dir True)
          = [CopyFile (path target) (paste_target dir (path target))]
        \<and> clipboard (fst (handlePaste page_props (handleCopy s target) dir True))
          = \<lparr>action = Some Copy, clip_path = Some (path target)\<rparr>
        \<and> snd (handlePaste page_props
                  (fst (handlePaste page_props (handleCopy s target) dir True)) dir' True)
          = [CopyFile (path target) (paste_target dir' (path target))])
   \<and> (path target \<noteq> [] \<longrightarrow>
        snd (handlePaste page_props (handleCut s target) dir True)
          = [MoveFile (path target) (paste_target dir (path target))]
        \<and> clipboard (fst (handlePaste page_props (handleCut s target) dir True))
          = \<lparr>action = None, clip_path = None\<rparr>
        \<and> handlePaste props (fst (handlePaste page_props (handleCut s target) dir True)) dir' ok
          = (fst (handlePaste page_props (handleCut s target) dir True), []))
   \<and> (clip_path (clipboard s) = None \<or> action (clipboard s) = None \<longrightarrow>
        handlePaste props s dir ok = (s, []))"
proof -
  have target: "paste_target dir src = (if dir = [] then basename src else dir @ ''/'' @ basename src)"
    by (simp add: paste_target_def)
  have copy: "path target \<noteq> [] \<longrightarrow>
        snd (handlePaste page_props (handleCopy s target) dir True)
          = [CopyFile (path target) (paste_target dir (path target))]
        \<and> clipboard (fst (handlePaste page_props (handleCopy s target) dir True))
          = \<lparr>action = Some Copy, clip_path = Some (path target)\<rparr>
        \<and> snd (handlePaste page_props
                  (fst (handlePaste page_props (handleCopy s target) dir True)) dir' True)
          = [CopyFile (path target) (paste_target dir' (path target))]"
    by (simp add: handlePaste_def handleCopy_def closeContextMenu_def page_props_def)
  have cut: "path target \<noteq> [] \<longrightarrow>
        snd (handlePaste page_props (handleCut s target) dir True)
          = [MoveFile (path target) (paste_target dir (path target))]
        \<and> clipboard (fst (handlePaste page_props (handleCut s target) dir True))
          = \<lparr>action = None, clip_path = None\<rparr>
        \<and> handlePaste props (fst (handlePaste page_props (handleCut s target) dir True)) dir' ok
          = (fst (handlePaste page_props (handleCut s target) dir True), [])"
    by (simp add: paste_after_cut paste_empty_clipboard closeContextMenu_clipboard)
  have empty: "clip_path (clipboard s) = None \<or> action (clipboard s) = None \<longrightarrow>
        handlePaste props s dir ok = (s, [])"
    using paste_empty_clipboard by blast
  show ?thesis using target copy cut empty by blast
qed

theorem paste_copy_cut_witness:
  "snd (handlePaste page_props
          (handleCopy
             \<lparr>name_filter = [], currentPath = [], editingFile = None, fileContent = [],
              editorReadOnly = False, clipboard = \<lparr>action = None, clip_path = None\<rparr>,
              menu_visible = True\<rparr>
             \<lparr>path = ''plugins/a.jar'', name = ''a.jar'', ftype = File, fsize = Some 1,
              modified = ''m''\<rparr>)
          ''world'' True)
     = [CopyFile ''plugins/a.jar'' ''world/a.jar'']
   \<and> snd (handlePaste page_props
          (handleCut
             \<lparr>name_filter = [], currentPath = [], editingFile = None, fileContent = [],
              editorReadOnly = False, clipboard = \<lparr>action = None, clip_path = None\<rparr>,
              menu_visible = True\<rparr>
             \<lparr>path = ''plugins/a.jar'', name = ''a.jar'', ftype = File, fsize = Some 1,
              modified = ''m''\<rparr>)
          [] True)
     = [MoveFile ''plugins/a.jar'' ''a.jar'']"
  using paste_copy_cut [of "''world''" "''plugins/a.jar''"
      "\<lparr>path = ''plugins/a.jar'', name = ''a.jar'', ftype = File, fsize = Some 1, modified = ''m''\<rparr>"
      "\<lparr>name_filter = [], currentPath = [], editingFile = None, fileContent = [],
        editorReadOnly = False, clipboard = \<lparr>action = None, clip_path = None\<rparr>,
        menu_visible = True\<rparr>" "''world''" page_props True]
    paste_copy_cut [of "[]" "''plugins/a.jar''"
      "\<lparr>path = ''plugins/a.jar'', name = ''a.jar'', ftype = File, fsize = Some 1, modified = ''m''\<rparr>"
      "\<lparr>name_filter = [], currentPath = [], editingFile = None, fileContent = [],
        editorReadOnly = False, clipboard = \<lparr>action = None, clip_path = None\<rparr>,
        menu_visible = True\<rparr>" "[]" page_props True]
  by (simp add: basename_def)

section \<open>Which files open in the editor\<close>









section \<open>Console export\<close>












section \<open>Directory listings\<close>

lemma includes_str_empty: "includes_str s [] = True"
  by (cases s) simp_all

lemma name_matches_includes:
  "name_matches rt flt f = includes_str (toLowerCase rt (name f)) (toLowerCase rt flt)"
  by (simp add: name_matches_def includes_str_empty toLowerCase_def)

lemma mset_insert_by: "mset (insert_by cmp x ys) = add_mset x (mset ys)"
  by (induction ys) simp_all

lemma mset_array_sort: "mset (array_sort cmp xs) = mset xs"
  by (induction xs) (simp_all add: array_sort_def mset_insert_by)

lemma set_insert_by: "set (insert_by cmp x ys) = insert x (set ys)"
  by (induction ys) auto

lemma consistent_total:
  "consistent_comparator cmp \<Longrightarrow> cmp a b \<le> 0 \<or> cmp b a \<le> 0"
  unfolding consistent_comparator_def by blast

lemma consistent_trans:
  "consistent_comparator cmp \<Longrightarrow> cmp a b \<le> 0 \<Longrightarrow> cmp b c \<le> 0 \<Longrightarrow> cmp a c \<le> 0"
  unfolding consistent_comparator_def by blast

lemma below_tail:
  assumes "consistent_comparator cmp"
    and "sorted_wrt (\<lambda>a b. cmp a b \<le> 0) (y # ys)"
    and "cmp x y \<le> 0"
  shows "\<forall>z \<in> set ys. cmp x z \<le> 0"
proof
  fix z
  assume "z \<in> set ys"
  then have "cmp y z \<le> 0" using assms(2) by simp
  with assms(3) show "cmp x z \<le> 0"
    by (rule consistent_trans [OF assms(1)])
qed

lemma sorted_insert_by:
  assumes "consistent_comparator cmp"
    and "sorted_wrt (\<lambda>a b. cmp a b \<le> 0) ys"
  shows "sorted_wrt (\<lambda>a b. cmp a b \<le> 0) (insert_by cmp x ys)"
  using assms(2)
proof (induction ys)
  case Nil
  then show ?case by simp
next
  case (Cons y ys)
  show ?case
  proof (cases "cmp x y \<le> 0")
    case True
    have "\<forall>z \<in> set ys. cmp x z \<le> 0"
      using assms(1) Cons.prems True by (rule below_tail)
    then show ?thesis using True Cons.prems by simp
  next
    case False
    then have "cmp y x \<le> 0" using consistent_total [OF assms(1), of x y] by simp
    then show ?thesis using False Cons by (simp add: set_insert_by)
  qed
qed

lemma sorted_array_sort:
  "consistent_comparator cmp \<Longrightarrow> sorted_wrt (\<lambda>a b. cmp a b \<le> 0) (array_sort cmp xs)"
  by (induction xs) (simp_all add: array_sort_def sorted_insert_by)

lemma insert_by_least:
  "\<forall>z \<in> set zs. cmp x z \<le> 0 \<Longrightarrow> insert_by cmp x zs = x # zs"
  by (cases zs) simp_all

lemma filter_insert_by:
  assumes "consistent_comparator cmp"
    and "sorted_wrt (\<lambda>a b. cmp a b \<le> 0) ys"
  shows "filter P (insert_by cmp x ys) =
           (if P x then insert_by cmp x (filter P ys) else filter P ys)"
  using assms(2)
proof (induction ys)
  case Nil
  then show ?case by simp
next
  case (Cons y ys)
  show ?case
  proof (cases "cmp x y \<le> 0")
    case True
    have "\<forall>z \<in> set ys. cmp x z \<le> 0"
      using assms(1) Cons.prems True by (rule below_tail)
    then have "\<forall>z \<in> set (filter P (y # ys)). cmp x z \<le> 0"
      using True by simp
    then have "insert_by cmp x (filter P (y # ys)) = x # filter P (y # ys)"
      by (rule insert_by_least)
    then show ?thesis using True by simp
  next
    case False
    then show ?thesis using Cons by simp
  qed
qed

lemma filter_array_sort:
  "consistent_comparator cmp \<Longrightarrow>
     filter P (array_sort cmp xs) = array_sort cmp (filter P xs)"
proof (induction xs)
  case Nil
  show ?case by (simp add: array_sort_def)
next
  case (Cons x xs)
  have "filter P (array_sort cmp (x # xs)) = filter P (insert_by cmp x (array_sort cmp xs))"
    by (simp add: array_sort_def)
  also have "\<dots> = (if P x then insert_by cmp x (filter P (array_sort cmp xs))
                   else filter P (array_sort cmp xs))"
    using Cons.prems by (simp add: filter_insert_by sorted_array_sort)
  also have "\<dots> = array_sort cmp (filter P (x # xs))"
    using Cons by (simp add: array_sort_def)
  finally show ?case .
qed

lemma compare_entries_total:
  assumes "consistent_comparator (localeCompare rt)"
  shows "compare_entries rt a b \<le> 0 \<or> compare_entries rt b a \<le> 0"
  using consistent_total [OF assms, of "name a" "name b"]
  by (cases "ftype a"; cases "ftype b") (simp_all add: compare_entries_def)

lemma compare_entries_trans:
  assumes "consistent_comparator (localeCompare rt)"
    and "compare_entries rt a b \<le> 0" and "compare_entries rt b c \<le> 0"
  shows "compare_entries rt a c \<le> 0"
  using assms(2,3) consistent_trans [OF assms(1), of "name a" "name b" "name c"]
  by (cases "ftype a"; cases "ftype b"; cases "ftype c") (simp_all add: compare_entries_def)

lemma consistent_compare_entries:
  assumes "consistent_comparator (localeCompare rt)"
  shows "consistent_comparator (compare_entries rt)"
  unfolding consistent_comparator_def
proof (intro conjI allI impI)
  fix a b
  show "compare_entries rt a b \<le> 0 \<or> compare_entries rt b a \<le> 0"
    using assms by (rule compare_entries_total)
next
  fix a b c
  assume h: "compare_entries rt a b \<le> 0 \<and> compare_entries rt b c \<le> 0"
  show "compare_entries rt a c \<le> 0"
    using assms h compare_entries_trans [of rt a b c] by simp
qed

lemma directories_first:
  assumes "sorted_wrt (\<lambda>a b. compare_entries rt a b \<le> 0) r"
    and "i < j" and "j < length r" and "ftype (r ! j) = Directory"
  shows "ftype (r ! i) = Directory"
proof -
  have "compare_entries rt (r ! i) (r ! j) \<le> 0"
    using assms(1-3) by (simp add: sorted_wrt_iff_nth_less)
  then show ?thesis using assms(4)
    by (cases "ftype (r ! i)") (simp_all add: compare_entries_def)
qed

lemma group_sorted:
  assumes "sorted_wrt (\<lambda>a b. compare_entries rt a b \<le> 0) r"
  shows "sorted_wrt (\<lambda>a b. localeCompare rt (name a) (name b) \<le> 0)
           (filter (\<lambda>f. ftype f = k) r)"
proof -
  have "sorted_wrt (\<lambda>a b. compare_entries rt a b \<le> 0) (filter (\<lambda>f. ftype f = k) r)"
    using assms by (rule sorted_wrt_filter)
  then show ?thesis
    by (rule sorted_wrt_mono_rel [rotated]) (simp add: compare_entries_def)
qed

lemma mset_own_properties: "mset (own_properties obj) = mset obj"
  by (simp add: own_properties_def)

lemma mset_object_values: "mset (object_values obj) = mset (map (\<lambda>kv. entry (snd kv)) obj)"
  by (simp add: object_values_def mset_own_properties)

lemma descend_resolve:
  "ps \<noteq> [] \<Longrightarrow> resolve t ps = Some n \<Longrightarrow> descend t ps = Inr (object_values (children n))"
proof (induction t ps rule: resolve.induct)
  case (1 t)
  then show ?case by simp
next
  case (2 t k)
  then show ?case by (simp add: get_prop_def)
next
  case (3 t k k' ks)
  then show ?case by (auto simp: get_prop_def split: option.splits)
qed

lemma getCurrentFiles_directory:
  "directory_at t p = Some kids \<Longrightarrow> getCurrentFiles t p = Inr (object_values kids)"
  by (auto simp: directory_at_def getCurrentFiles_def path_parts_def descend_resolve
      split: if_splits)

lemma alphabetical_compare_le:
  "alphabetical_compare a b \<le> 0 \<longleftrightarrow>
     map lower_char a < map lower_char b \<or> (map lower_char a = map lower_char b \<and> b \<le> a)"
  by (auto simp: alphabetical_compare_def)

lemma alphabetical_compare_consistent: "consistent_comparator alphabetical_compare"
  unfolding consistent_comparator_def alphabetical_compare_le
  by (intro conjI allI impI) (auto intro: less_trans)

lemma sample_runtime_consistent: "consistent_comparator (localeCompare sample_runtime)"
  by (simp add: sample_runtime_def alphabetical_compare_consistent)

text \<open>
  Claim C3, as amended. For a runtime whose \<^verbatim>\<open>localeCompare\<close> is consistent and any
  directory of the tree, whatever the order its entries were added in, the listing is
  the directory's entries in comparator order with the entries whose lower-cased name
  does not contain the lower-cased filter taken out: it holds exactly the matching
  entries, no file comes before a directory, and the directories and the files are
  each in ascending order of their names under the runtime's \<^verbatim>\<open>localeCompare\<close>.
\<close>

theorem listing_order:
  assumes "consistent_comparator (localeCompare rt)"
    and "directory_at fileTree cur = Some kids"
  shows "\<exists>r. currentFiles rt fileTree cur flt = Inr r
     \<and> r = filter (\<lambda>f. includes_str (toLowerCase rt (name f)) (toLowerCase rt flt))
             (array_sort (compare_entries rt) (object_values kids))
     \<and> mset r = mset (filter (\<lambda>f. includes_str (toLowerCase rt (name f)) (toLowerCase rt flt))
                        (map (\<lambda>kv. entry (snd kv)) kids))
     \<and> sorted_wrt (\<lambda>a b. compare_entries rt a b \<le> 0) r
     \<and> (\<forall>i j. i < j \<and> j < length r \<and> ftype (r ! j) = Directory \<longrightarrow> ftype (r ! i) = Directory)
     \<and> sorted_wrt (\<lambda>a b. localeCompare rt (name a) (name b) \<le> 0)
          (filter (\<lambda>f. ftype f = Directory) r)
     \<and> sorted_wrt (\<lambda>a b. localeCompare rt (name a) (name b) \<le> 0)
          (filter (\<lambda>f. ftype f = File) r)"
proof -
  let ?P = "\<lambda>f. includes_str (toLowerCase rt (name f)) (toLowerCase rt flt)"
  let ?cmp = "compare_entries rt"
  let ?r = "array_sort ?cmp (filter ?P (object_values kids))"
  have P: "name_matches rt flt = ?P"
    by (rule ext) (rule name_matches_includes)
  have cons: "consistent_comparator ?cmp"
    using assms(1) by (rule consistent_compare_entries)
  have run: "currentFiles rt fileTree cur flt = Inr ?r"
    using assms(2) by (simp add: currentFiles_def getCurrentFiles_directory P)
  have order: "?r = filter ?P (array_sort ?cmp (object_values kids))"
    using cons by (simp add: filter_array_sort)
  have same: "mset ?r = mset (filter ?P (map (\<lambda>kv. entry (snd kv)) kids))"
    by (simp add: mset_array_sort mset_object_values)
  have sorted: "sorted_wrt (\<lambda>a b. ?cmp a b \<le> 0) ?r"
    using cons by (rule sorted_array_sort)
  have first: "\<forall>i j. i < j \<and> j < length ?r \<and> ftype (?r ! j) = Directory \<longrightarrow> ftype (?r ! i) = Directory"
    using directories_first [OF sorted] by blast
  have dirs: "sorted_wrt (\<lambda>a b. localeCompare rt (name a) (name b) \<le> 0)
      (filter (\<lambda>f. ftype f = Directory) ?r)"
    using sorted by (rule group_sorted)
  have fls: "sorted_wrt (\<lambda>a b. localeCompare rt (name a) (name b) \<le> 0)
      (filter (\<lambda>f. ftype f = File) ?r)"
    using sorted by (rule group_sorted)
  show ?thesis
    using run order same sorted first dirs fls by (intro exI [of _ ?r]) (simp only: simp_thms)
qed

theorem listing_order_witness:
  "consistent_comparator (localeCompare sample_runtime)
   \<and> currentFiles sample_runtime
        [(''b.txt'', Node \<lparr>path = ''b.txt'', name = ''b.txt'', ftype = File, fsize = Some 2, modified = ''m''\<rparr> []),
         (''plugins'', Node \<lparr>path = ''plugins'', name = ''plugins'', ftype = Directory, fsize = None, modified = ''m''\<rparr> []),
         (''Ant.jar'', Node \<lparr>path = ''Ant.jar'', name = ''Ant.jar'', ftype = File, fsize = Some 3, modified = ''m''\<rparr> [])]
        [] ''T''
     = Inr [\<lparr>path = ''Ant.jar'', name = ''Ant.jar'', ftype = File, fsize = Some 3, modified = ''m''\<rparr>,
            \<lparr>path = ''b.txt'', name = ''b.txt'', ftype = File, fsize = Some 2, modified = ''m''\<rparr>]
   \<and> currentFiles sample_runtime
        [(''b.txt'', Node \<lparr>path = ''b.txt'', name = ''b.txt'', ftype = File, fsize = Some 2, modified = ''m''\<rparr> []),
         (''plugins'', Node \<lparr>path = ''plugins'', name = ''plugins'', ftype = Directory, fsize = None, modified = ''m''\<rparr> []),
         (''Ant.jar'', Node \<lparr>path = ''Ant.jar'', name = ''Ant.jar'', ftype = File, fsize = Some 3, modified = ''m''\<rparr> [])]
        [] []
     = Inr [\<lparr>path = ''plugins'', name = ''plugins'', ftype = Directory, fsize = None, modified = ''m''\<rparr>,
            \<lparr>path = ''Ant.jar'', name = ''Ant.jar'', ftype = File, fsize = Some 3, modified = ''m''\<rparr>,
            \<lparr>path = ''b.txt'', name = ''b.txt'', ftype = File, fsize = Some 2, modified = ''m''\<rparr>]"
  using listing_order [OF sample_runtime_consistent, of
        "[(''b.txt'', Node \<lparr>path = ''b.txt'', name = ''b.txt'', ftype = File, fsize = Some 2, modified = ''m''\<rparr> []),
         (''plugins'', Node \<lparr>path = ''plugins'', name = ''plugins'', ftype = Directory, fsize = None, modified = ''m''\<rparr> []),
         (''Ant.jar'', Node \<lparr>path = ''Ant.jar'', name = ''Ant.jar'', ftype = File, fsize = Some 3, modified = ''m''\<rparr> [])]"
        "[]"
        "[(''b.txt'', Node \<lparr>path = ''b.txt'', name = ''b.txt'', ftype = File, fsize = Some 2, modified = ''m''\<rparr> []),
         (''plugins'', Node \<lparr>path = ''plugins'', name = ''plugins'', ftype = Directory, fsize = None, modified = ''m''\<rparr> []),
         (''Ant.jar'', Node \<lparr>path = ''Ant.jar'', name = ''Ant.jar'', ftype = File, fsize = Some 3, modified = ''m''\<rparr> [])]"
        "''T''"]
    sample_runtime_consistent
  by (simp add: directory_at_def path_parts_def currentFiles_def getCurrentFiles_def
      object_values_def own_properties_def is_array_index_def is_digit_def array_sort_def
      compare_entries_def sample_runtime_def alphabetical_compare_def name_matches_def
      toLowerCase_def is_ascii_def lower_char_def)

text \<open>
  The claim as stated fails: with the collation of an English locale the files \<^verbatim>\<open>B\<close>
  and \<^verbatim>\<open>a\<close> are listed as \<^verbatim>\<open>a\<close>, \<^verbatim>\<open>B\<close>, which is not ascending in the order that takes
  case into account, where \<^verbatim>\<open>B\<close> comes before \<^verbatim>\<open>a\<close>.
\<close>

theorem listing_order_counterexample:
  "currentFiles sample_runtime
     [(''B'', Node \<lparr>path = ''B'', name = ''B'', ftype = File, fsize = Some 1, modified = ''m''\<rparr> []),
      (''a'', Node \<lparr>path = ''a'', name = ''a'', ftype = File, fsize = Some 1, modified = ''m''\<rparr> [])]
     [] []
   = Inr [\<lparr>path = ''a'', name = ''a'', ftype = File, fsize = Some 1, modified = ''m''\<rparr>,
          \<lparr>path = ''B'', name = ''B'', ftype = File, fsize = Some 1, modified = ''m''\<rparr>]
   \<and> \<not> spec_ascending_names [''a'', ''B'']
   \<and> spec_ascending_names [''B'', ''a'']"
  by (simp add: currentFiles_def getCurrentFiles_def object_values_def own_properties_def
      is_array_index_def is_digit_def array_sort_def compare_entries_def sample_runtime_def
      alphabetical_compare_def name_matches_def lower_char_def spec_ascending_names_def)

section \<open>Building the tree\<close>

lemma map_of_set_prop:
  "map_of (set_prop t k v) k' = (if k' = k then Some v else map_of t k')"
  by (induction t) auto

lemma resolve_set_prop_other:
  "k' \<noteq> k \<Longrightarrow> resolve (set_prop t k v) (k' # ks) = resolve t (k' # ks)"
  by (cases ks) (simp_all add: map_of_set_prop)

lemma resolve_set_prop_same:
  "resolve (set_prop t k v) (k # ks) = (if ks = [] then Some v else resolve (children v) ks)"
  by (cases ks) (simp_all add: map_of_set_prop)

lemma resolve_Cons:
  "resolve t (k # ks) =
     (case map_of t k of
        None \<Rightarrow> None
      | Some n \<Rightarrow> if ks = [] then Some n else resolve (children n) ks)"
  by (cases ks) (simp_all split: option.splits)

lemma resolve_empty: "resolve [] p = None"
  by (cases p) (simp_all add: resolve_Cons)

lemma get_prop_Own: "get_prop t k = Own n \<longleftrightarrow> map_of t k = Some n"
  by (simp add: get_prop_def split: option.splits)

lemma get_prop_not_own: "get_prop t k = Inherited \<or> get_prop t k = Absent \<Longrightarrow> map_of t k = None"
  by (auto simp: get_prop_def split: option.splits if_splits)

lemma walk_preserves:
  "walk f seen ps t = Inr t' \<Longrightarrow> resolve t p = Some n \<Longrightarrow>
     \<exists>n'. resolve t' p = Some n' \<and> entry n' = entry n"
proof (induction ps arbitrary: seen t t' p n)
  case Nil
  then show ?case by simp
next
  case (Cons part rest)
  obtain k ks where p: "p = k # ks"
    using Cons.prems(2) by (cases p) simp_all
  show ?case
  proof (cases "get_prop t part")
    case Inherited
    then show ?thesis using Cons.prems by (simp split: if_splits)
  next
    case Absent
    then obtain ch where
      t': "t' = set_prop t part
                 (Node \<lparr>path = join ''/'' (seen @ [part]), name = part,
                        ftype = (if rest = [] then ftype f else Directory),
                        fsize = (if rest = [] then fsize f else None),
                        modified = modified f\<rparr> ch)"
      using Cons.prems(1) by (auto split: sum.splits)
    have "map_of t part = None" using Absent by (simp add: get_prop_not_own)
    then have "k \<noteq> part" using Cons.prems(2) p by (auto simp: resolve_Cons)
    then show ?thesis using Cons.prems(2) p t' by (simp add: resolve_set_prop_other)
  next
    case (Own n0)
    then obtain ch where ch: "walk f (seen @ [part]) rest (children n0) = Inr ch"
      and t': "t' = set_prop t part (Node (entry n0) ch)"
      using Cons.prems(1) by (auto split: sum.splits)
    have n0: "map_of t part = Some n0" using Own by (simp add: get_prop_Own)
    show ?thesis
    proof (cases "k = part")
      case False
      then show ?thesis using Cons.prems(2) p t' by (simp add: resolve_set_prop_other)
    next
      case True
      show ?thesis
      proof (cases "ks = []")
        case True
        then show ?thesis using \<open>k = part\<close> Cons.prems(2) p t' n0
          by (simp add: map_of_set_prop)
      next
        case False
        then have "resolve (children n0) ks = Some n"
          using \<open>k = part\<close> Cons.prems(2) p n0 by (simp add: resolve_Cons)
        then obtain n' where "resolve ch ks = Some n' \<and> entry n' = entry n"
          using Cons.IH [OF ch] by blast
        then show ?thesis using False \<open>k = part\<close> p t' by (simp add: resolve_set_prop_same)
      qed
    qed
  qed
qed

lemma walk_creates:
  "walk f seen ps t = Inr t' \<Longrightarrow> resolve t p = None \<Longrightarrow> resolve t' p = Some n \<Longrightarrow>
     \<exists>rest. ps = p @ rest
       \<and> entry n = \<lparr>path = join ''/'' (seen @ p), name = last p,
                    ftype = (if rest = [] then ftype f else Directory),
                    fsize = (if rest = [] then fsize f else None),
                    modified = modified f\<rparr>"
proof (induction ps arbitrary: seen t t' p n)
  case Nil
  then show ?case by simp
next
  case (Cons part rest)
  obtain k ks where p: "p = k # ks"
    using Cons.prems(3) by (cases p) simp_all
  show ?case
  proof (cases "get_prop t part")
    case Inherited
    then show ?thesis using Cons.prems by (simp split: if_splits)
  next
    case Absent
    then obtain ch where ch: "walk f (seen @ [part]) rest [] = Inr ch"
      and t': "t' = set_prop t part
                 (Node \<lparr>path = join ''/'' (seen @ [part]), name = part,
                        ftype = (if rest = [] then ftype f else Directory),
                        fsize = (if rest = [] then fsize f else None),
                        modified = modified f\<rparr> ch)"
      using Cons.prems(1) by (auto split: sum.splits)
    have k: "k = part"
      using Cons.prems(2,3) p t' by (cases "k = part") (simp_all add: resolve_set_prop_other)
    show ?thesis
    proof (cases "ks = []")
      case True
      then show ?thesis using k Cons.prems(3) p t' by (auto simp: map_of_set_prop)
    next
      case False
      then have "resolve ch ks = Some n"
        using k Cons.prems(3) p t' by (simp add: resolve_set_prop_same)
      then obtain rest' where "rest = ks @ rest'"
        and "entry n = \<lparr>path = join ''/'' ((seen @ [part]) @ ks), name = last ks,
                    ftype = (if rest' = [] then ftype f else Directory),
                    fsize = (if rest' = [] then fsize f else None),
                    modified = modified f\<rparr>"
        using Cons.IH [OF ch resolve_empty] by blast
      then show ?thesis using False k p by simp
    qed
  next
    case (Own n0)
    then obtain ch where ch: "walk f (seen @ [part]) rest (children n0) = Inr ch"
      and t': "t' = set_prop t part (Node (entry n0) ch)"
      using Cons.prems(1) by (auto split: sum.splits)
    have n0: "map_of t part = Some n0" using Own by (simp add: get_prop_Own)
    have k: "k = part"
      using Cons.prems(2,3) p t' by (cases "k = part") (simp_all add: resolve_set_prop_other)
    have ks: "ks \<noteq> []"
      using k Cons.prems(2) p n0 by (auto simp: resolve_Cons)
    have before: "resolve (children n0) ks = None"
      using k ks Cons.prems(2) p n0 by (simp add: resolve_Cons)
    have after: "resolve ch ks = Some n"
      using k ks Cons.prems(3) p t' by (simp add: resolve_set_prop_same)
    obtain rest' where "rest = ks @ rest'"
      and "entry n = \<lparr>path = join ''/'' ((seen @ [part]) @ ks), name = last ks,
                  ftype = (if rest' = [] then ftype f else Directory),
                  fsize = (if rest' = [] then fsize f else None),
                  modified = modified f\<rparr>"
      using Cons.IH [OF ch before after] by blast
    then show ?thesis using ks k p by simp
  qed
qed

lemma build_from_preserves:
  "build_from t fs = Inr t' \<Longrightarrow> resolve t p = Some n \<Longrightarrow>
     \<exists>n'. resolve t' p = Some n' \<and> entry n' = entry n"
proof (induction fs arbitrary: t n)
  case Nil
  then show ?case by simp
next
  case (Cons f fs)
  then obtain t1 where w: "walk f [] (path_parts (path f)) t = Inr t1"
    and b: "build_from t1 fs = Inr t'"
    by (auto split: sum.splits)
  obtain n1 where "resolve t1 p = Some n1" and "entry n1 = entry n"
    using walk_preserves [OF w Cons.prems(2)] by blast
  then show ?case using Cons.IH [OF b] by fastforce
qed

lemma build_from_append:
  "build_from t (xs @ ys) =
     (case build_from t xs of Inl e \<Rightarrow> Inl e | Inr t1 \<Rightarrow> build_from t1 ys)"
  by (induction xs arbitrary: t) (simp_all split: sum.splits)

text \<open>
  Claim C10. Once a path leads to a node in the tree built from the first entries of a
  listing, it leads to a node with the same name, path, kind, size and modified
  fields in the tree built from any longer listing: later entries never overwrite
  them. And when the walk of an entry creates the node at a path (no node before it,
  a node after it), the path is a prefix of the entry's segments and the node's kind,
  size and modified fields are the entry's for the full path, and a directory with
  no size and the entry's modified for a proper prefix.
\<close>

theorem first_entry_determines_node:
  "(buildFileTree xs = Inr t0 \<and> resolve t0 p = Some n0 \<and> buildFileTree (xs @ ys) = Inr t \<longrightarrow>
      (\<exists>n. resolve t p = Some n \<and> entry n = entry n0))
   \<and> (buildFileTree xs = Inr t0 \<and> resolve t0 p = None
       \<and> buildFileTree (xs @ [f]) = Inr t1 \<and> resolve t1 p = Some n1 \<longrightarrow>
      (\<exists>rest. path_parts (path f) = p @ rest
         \<and> ftype (entry n1) = (if rest = [] then ftype f else Directory)
         \<and> fsize (entry n1) = (if rest = [] then fsize f else None)
         \<and> modified (entry n1) = modified f))"
proof (intro conjI impI)
  assume h: "buildFileTree xs = Inr t0 \<and> resolve t0 p = Some n0 \<and> buildFileTree (xs @ ys) = Inr t"
  then have "build_from t0 ys = Inr t"
    by (auto simp: buildFileTree_def build_from_append)
  then show "\<exists>n. resolve t p = Some n \<and> entry n = entry n0"
    using h build_from_preserves by blast
next
  assume h: "buildFileTree xs = Inr t0 \<and> resolve t0 p = None
       \<and> buildFileTree (xs @ [f]) = Inr t1 \<and> resolve t1 p = Some n1"
  then have "walk f [] (path_parts (path f)) t0 = Inr t1"
    by (auto simp: buildFileTree_def build_from_append split: sum.splits)
  then obtain rest where "path_parts (path f) = p @ rest"
    and "entry n1 = \<lparr>path = join ''/'' ([] @ p), name = last p,
                    ftype = (if rest = [] then ftype f else Directory),
                    fsize = (if rest = [] then fsize f else None),
                    modified = modified f\<rparr>"
    using h walk_creates [of f "[]" "path_parts (path f)" t0 t1 p n1] by blast
  then show "\<exists>rest. path_parts (path f) = p @ rest
         \<and> ftype (entry n1) = (if rest = [] then ftype f else Directory)
         \<and> fsize (entry n1) = (if rest = [] then fsize f else None)
         \<and> modified (entry n1) = modified f"
    by (intro exI [of _ rest]) simp
qed

theorem first_entry_determines_node_witness:
  "buildFileTree
     [\<lparr>path = ''a/b.txt'', name = ''b.txt'', ftype = File, fsize = Some 5, modified = ''t1''\<rparr>,
      \<lparr>path = ''a'', name = ''a'', ftype = Directory, fsize = Some 7, modified = ''t2''\<rparr>,
      \<lparr>path = ''a/b.txt'', name = ''b.txt'', ftype = File, fsize = Some 9, modified = ''t3''\<rparr>]
   = Inr [(''a'', Node \<lparr>path = ''a'', name = ''a'', ftype = Directory, fsize = None, modified = ''t1''\<rparr>
             [(''b.txt'', Node \<lparr>path = ''a/b.txt'', name = ''b.txt'', ftype = File, fsize = Some 5,
                                modified = ''t1''\<rparr> [])])]
   \<and> (\<exists>n. resolve
          [(''a'', Node \<lparr>path = ''a'', name = ''a'', ftype = Directory, fsize = None, modified = ''t1''\<rparr>
             [(''b.txt'', Node \<lparr>path = ''a/b.txt'', name = ''b.txt'', ftype = File, fsize = Some 5,
                                modified = ''t1''\<rparr> [])])]
          [''a''] = Some n
        \<and> entry n = \<lparr>path = ''a'', name = ''a'', ftype = Directory, fsize = None, modified = ''t1''\<rparr>)
   \<and> resolve [] [''a''] = None
   \<and> (\<exists>rest. path_parts ''a/b.txt'' = [''a''] @ rest \<and> rest \<noteq> [])"
  using first_entry_determines_node [of
      "[\<lparr>path = ''a/b.txt'', name = ''b.txt'', ftype = File, fsize = Some 5, modified = ''t1''\<rparr>]"
      "[(''a'', Node \<lparr>path = ''a'', name = ''a'', ftype = Directory, fsize = None, modified = ''t1''\<rparr>
             [(''b.txt'', Node \<lparr>path = ''a/b.txt'', name = ''b.txt'', ftype = File, fsize = Some 5,
                                modified = ''t1''\<rparr> [])])]"
      "[''a'']"
      "Node \<lparr>path = ''a'', name = ''a'', ftype = Directory, fsize = None, modified = ''t1''\<rparr>
             [(''b.txt'', Node \<lparr>path = ''a/b.txt'', name = ''b.txt'', ftype = File, fsize = Some 5,
                                modified = ''t1''\<rparr> [])]"
      "[\<lparr>path = ''a'', name = ''a'', ftype = Directory, fsize = Some 7, modified = ''t2''\<rparr>,
        \<lparr>path = ''a/b.txt'', name = ''b.txt'', ftype = File, fsize = Some 9, modified = ''t3''\<rparr>]"
      "[(''a'', Node \<lparr>path = ''a'', name = ''a'', ftype = Directory, fsize = None, modified = ''t1''\<rparr>
             [(''b.txt'', Node \<lparr>path = ''a/b.txt'', name = ''b.txt'', ftype = File, fsize = Some 5,
                                modified = ''t1''\<rparr> [])])]"]
    first_entry_determines_node [of "[]" "[]" "[''a'']" _ _ _
      "\<lparr>path = ''a/b.txt'', name = ''b.txt'', ftype = File, fsize = Some 5, modified = ''t1''\<rparr>"
      "[(''a'', Node \<lparr>path = ''a'', name = ''a'', ftype = Directory, fsize = None, modified = ''t1''\<rparr>
             [(''b.txt'', Node \<lparr>path = ''a/b.txt'', name = ''b.txt'', ftype = File, fsize = Some 5,
                                modified = ''t1''\<rparr> [])])]"
      "Node \<lparr>path = ''a'', name = ''a'', ftype = Directory, fsize = None, modified = ''t1''\<rparr>
             [(''b.txt'', Node \<lparr>path = ''a/b.txt'', name = ''b.txt'', ftype = File, fsize = Some 5,
                                modified = ''t1''\<rparr> [])]"]
  by (simp add: buildFileTree_def path_parts_def get_prop_def object_prototype_keys_def)

section \<open>Segments that name inherited properties\<close>

lemma walk_resolves:
  "walk f seen (p @ rest) t = Inr t' \<Longrightarrow> p \<noteq> [] \<Longrightarrow>
     set p \<inter> set object_prototype_keys = {} \<Longrightarrow> \<exists>n. resolve t' p = Some n"
proof (induction p arbitrary: seen t t')
  case Nil
  then show ?case by simp
next
  case (Cons k ks)
  have k: "k \<notin> set object_prototype_keys" using Cons.prems(3) by simp
  have ks: "set ks \<inter> set object_prototype_keys = {}" using Cons.prems(3) by auto
  show ?case
  proof (cases "map_of t k")
    case None
    then have "get_prop t k = Absent" using k by (simp add: get_prop_def)
    then obtain ch e where ch: "walk f (seen @ [k]) (ks @ rest) [] = Inr ch"
      and t': "t' = set_prop t k (Node e ch)"
      using Cons.prems(1) by (auto split: sum.splits)
    show ?thesis
    proof (cases "ks = []")
      case True
      then show ?thesis using t' by (simp add: map_of_set_prop)
    next
      case False
      then obtain n where "resolve ch ks = Some n"
        using Cons.IH [OF ch _ ks] by blast
      then show ?thesis using False t' by (simp add: resolve_set_prop_same)
    qed
  next
    case (Some n0)
    then have "get_prop t k = Own n0" by (simp add: get_prop_Own)
    then obtain ch where ch: "walk f (seen @ [k]) (ks @ rest) (children n0) = Inr ch"
      and t': "t' = set_prop t k (Node (entry n0) ch)"
      using Cons.prems(1) by (auto split: sum.splits)
    show ?thesis
    proof (cases "ks = []")
      case True
      then show ?thesis using t' by (simp add: map_of_set_prop)
    next
      case False
      then obtain n where "resolve ch ks = Some n"
        using Cons.IH [OF ch _ ks] by blast
      then show ?thesis using False t' by (simp add: resolve_set_prop_same)
    qed
  qed
qed

text \<open>
  For segments that name no inherited property the chain is there: when the build
  returns a tree, every non-empty prefix of every entry's segments leads to a node.
\<close>

lemma buildFileTree_creates_chain:
  assumes "buildFileTree listing = Inr t" and "f \<in> set listing"
    and "path_parts (path f) = p @ rest" and "p \<noteq> []"
    and "set p \<inter> set object_prototype_keys = {}"
  shows "\<exists>n. resolve t p = Some n"
proof -
  obtain xs ys where listing: "listing = xs @ f # ys"
    using assms(2) by (auto dest: split_list)
  then obtain t0 t1 where "build_from [] xs = Inr t0"
    and w: "walk f [] (path_parts (path f)) t0 = Inr t1"
    and b: "build_from t1 ys = Inr t"
    using assms(1) by (auto simp: buildFileTree_def build_from_append split: sum.splits)
  obtain n1 where "resolve t1 p = Some n1"
    using walk_resolves [of f "[]" p rest t0 t1] w assms(3-5) by auto
  then show ?thesis using build_from_preserves [OF b] by blast
qed

text \<open>The spec's scenario: the listing \<^verbatim>\<open>[a/, a/b.txt, c.txt]\<close>.\<close>

lemma scenario_listing:
  "buildFileTree
     [\<lparr>path = ''a/'', name = ''a'', ftype = Directory, fsize = None, modified = ''t1''\<rparr>,
      \<lparr>path = ''a/b.txt'', name = ''b.txt'', ftype = File, fsize = Some 5, modified = ''t2''\<rparr>,
      \<lparr>path = ''c.txt'', name = ''c.txt'', ftype = File, fsize = Some 6, modified = ''t3''\<rparr>]
   = Inr [(''a'', Node \<lparr>path = ''a'', name = ''a'', ftype = Directory, fsize = None, modified = ''t1''\<rparr>
             [(''b.txt'', Node \<lparr>path = ''a/b.txt'', name = ''b.txt'', ftype = File, fsize = Some 5,
                                modified = ''t2''\<rparr> [])]),
          (''c.txt'', Node \<lparr>path = ''c.txt'', name = ''c.txt'', ftype = File, fsize = Some 6,
                            modified = ''t3''\<rparr> [])]"
  by (simp add: buildFileTree_def path_parts_def get_prop_def object_prototype_keys_def)

text \<open>
  Claim C2 fails on the code for a segment that names an inherited property. A
  listing whose only entry is the file \<^verbatim>\<open>constructor\<close> builds the empty tree: the
  entry gets no node. An entry below such a segment, \<^verbatim>\<open>constructor/a.txt\<close>, makes
  the build throw, and an entry \<^verbatim>\<open>plugins/toString\<close> creates \<^verbatim>\<open>plugins\<close> and not
  the leaf.
\<close>

theorem buildFileTree_inherited_segment:
  "buildFileTree
     [\<lparr>path = ''constructor'', name = ''constructor'', ftype = File, fsize = Some 1, modified = ''m''\<rparr>]
   = Inr []
   \<and> buildFileTree
     [\<lparr>path = ''constructor/a.txt'', name = ''a.txt'', ftype = File, fsize = Some 1, modified = ''m''\<rparr>]
   = Inl TypeError
   \<and> buildFileTree
     [\<lparr>path = ''plugins/toString'', name = ''toString'', ftype = File, fsize = Some 1, modified = ''m''\<rparr>]
   = Inr [(''plugins'', Node \<lparr>path = ''plugins'', name = ''plugins'', ftype = Directory, fsize = None,
                               modified = ''m''\<rparr> [])]"
  by (simp add: buildFileTree_def path_parts_def get_prop_def object_prototype_keys_def)

end
